theory Spec2Isabelle
  imports Complex_Main
begin

section \<open>The download utility (shared/utils/download.ts)\<close>

subsection \<open>Strings and numbers of the runtime\<close>

text \<open>
  \<^verbatim>\<open>String.prototype.includes\<close>: \<open>str_includes s sub\<close> holds when \<open>sub\<close> occurs in \<open>s\<close>
  as a contiguous run of characters.
\<close>

definition startsWith :: "string \<Rightarrow> string \<Rightarrow> bool" where
  "startsWith s sub = (take (length sub) s = sub)"

fun str_includes :: "string \<Rightarrow> string \<Rightarrow> bool" where
  "str_includes [] sub = (sub = [])"
| "str_includes (c # cs) sub = (startsWith (c # cs) sub \<or> str_includes cs sub)"

text \<open>Decimal digits of a natural number, most significant first.\<close>

definition digit_char :: "nat \<Rightarrow> char" where
  "digit_char n = ''0123456789'' ! n"

function show_nat :: "nat \<Rightarrow> string" where
  "show_nat n =
     (if n < 10 then [digit_char n] else show_nat (n div 10) @ [digit_char (n mod 10)])"
  by pat_completeness auto
termination
  by (relation "measure id") auto

declare show_nat.simps [simp del]

text \<open>
  A JavaScript \<^verbatim>\<open>number\<close> is modelled by a rational: the loop counter and the retry
  limit are compared exactly, and a limit that is not a whole number is a value the
  parameter's type admits. (\<^verbatim>\<open>NaN\<close>, the infinities and the rounding of doubles beyond
  \<open>2^53\<close> are outside the model.)

  A template literal renders a whole number below \<open>10^21\<close> in decimal; the rendering of
  every other number is left to the runtime, the parameter \<open>other\<close>.
\<close>

definition isInteger :: "rat \<Rightarrow> bool" where
  "isInteger x = (of_int \<lfloor>x\<rfloor> = x)"

definition num_str :: "(rat \<Rightarrow> string) \<Rightarrow> rat \<Rightarrow> string" where
  "num_str other x =
     (if isInteger x \<and> \<bar>x\<bar> < 10 ^ 21
      then (if x < 0 then ''-'' @ show_nat (nat (- \<lfloor>x\<rfloor>)) else show_nat (nat \<lfloor>x\<rfloor>))
      else other x)"

subsection \<open>What one attempt meets\<close>

text \<open>
  The outcome of \<^verbatim>\<open>client.get(url)\<close>: the promise rejects with an error message, or it
  resolves with a response carrying a status code, a status message and headers.
\<close>

datatype get_result =
    Rejects string
  | Resolves nat string "(string \<times> string) list"

text \<open>
  Everything the body of the \<^verbatim>\<open>try\<close> block reads from outside during one attempt:
  the HTTP outcome, whether the destination directory exists, and the error message (if
  any) with which \<^verbatim>\<open>fs.mkdirSync\<close> or the streaming of the response to the file throws.
\<close>

record attempt_io =
  get_result :: get_result
  destDirExists :: bool
  mkdirError :: "string option"
  streamError :: "string option"

text \<open>The environment gives the outcome of each attempt, numbered from \<open>0\<close>.\<close>

type_synonym network = "nat \<Rightarrow> attempt_io"

text \<open>The observable effects, in the order in which they happen.\<close>

datatype event =
    Info string
  | Warning string
  | Sleep rat
  | HttpGet string
  | MkdirRecursive
  | StreamToFile string

text \<open>
  How a call ends: it returns, or it throws at one of the three \<^verbatim>\<open>throw\<close> statements
  outside the \<^verbatim>\<open>try\<close> block's own: the rethrow of a non-retryable error, the error after
  the last attempt, and the statement after the loop.
\<close>

datatype throw_site = Rethrow | LastAttempt | AfterLoop

datatype outcome = Returned | Threw throw_site string

subsection \<open>downloadFile\<close>

definition BACKOFF_MULTIPLIER :: rat where
  "BACKOFF_MULTIPLIER = 2"

definition DEFAULT_MAX_RETRIES :: rat where
  "DEFAULT_MAX_RETRIES = 3"

definition DEFAULT_RETRY_DELAY_MS :: rat where
  "DEFAULT_RETRY_DELAY_MS = 1000"

text \<open>The delay computed before attempt \<open>attempt > 0\<close>.\<close>

definition backoff_delay :: "rat \<Rightarrow> nat \<Rightarrow> rat" where
  "backoff_delay retryDelayMs attempt = retryDelayMs * BACKOFF_MULTIPLIER ^ (attempt - 1)"

text \<open>
  The part of the \<^verbatim>\<open>try\<close> block from \<^verbatim>\<open>client.get\<close> on: its effects, and the message
  of the error it throws, if it throws.
\<close>

definition fetch_and_store :: "string \<Rightarrow> string \<Rightarrow> attempt_io \<Rightarrow> event list \<times> string option" where
  "fetch_and_store url destPath io =
     (case get_result io of
        Rejects msg \<Rightarrow> ([HttpGet url], Some msg)
      | Resolves statusCode statusMessage headers \<Rightarrow>
          if statusCode \<noteq> 200
          then ([HttpGet url], Some (''HTTP '' @ show_nat statusCode @ '': '' @ statusMessage))
          else if \<not> destDirExists io \<and> mkdirError io \<noteq> None
          then ([HttpGet url, MkdirRecursive], mkdirError io)
          else
            (let made = (if destDirExists io then [] else [MkdirRecursive]) in
             case streamError io of
               Some msg \<Rightarrow> ([HttpGet url] @ made @ [StreamToFile destPath], Some msg)
             | None \<Rightarrow>
                 ([HttpGet url] @ made @
                  [StreamToFile destPath, Info (''Successfully downloaded to '' @ destPath)],
                  None)))"

text \<open>The sleep before a retry, with its log line; nothing before the first attempt.\<close>

definition before_attempt :: "(rat \<Rightarrow> string) \<Rightarrow> rat \<Rightarrow> rat \<Rightarrow> nat \<Rightarrow> event list" where
  "before_attempt other maxRetries retryDelayMs attempt =
     (if attempt > 0
      then [Info (''Retry attempt '' @ num_str other (of_nat attempt) @ ''/'' @
                  num_str other maxRetries @ '' after '' @
                  num_str other (backoff_delay retryDelayMs attempt) @ ''ms delay...''),
            Sleep (backoff_delay retryDelayMs attempt)]
      else [])"

definition non_retryable :: "string \<Rightarrow> bool" where
  "non_retryable msg = (str_includes msg ''HTTP 4'' \<and> \<not> str_includes msg ''429'')"

text \<open>
  The \<^verbatim>\<open>for\<close> loop from the iteration \<open>attempt\<close> on, and the statement after it. The
  result is how the call ends and the effects from this iteration on.
\<close>

function retry_loop ::
  "(rat \<Rightarrow> string) \<Rightarrow> network \<Rightarrow> string \<Rightarrow> string \<Rightarrow> rat \<Rightarrow> rat \<Rightarrow> nat \<Rightarrow> outcome \<times> event list"
where
  "retry_loop other net url destPath maxRetries retryDelayMs attempt =
     (if of_nat attempt \<le> maxRetries then
        (let pre = before_attempt other maxRetries retryDelayMs attempt @
                   [Info (''Downloading from '' @ url @ ''...'')];
             (evs, err) = fetch_and_store url destPath (net attempt)
         in case err of
              None \<Rightarrow> (Returned, pre @ evs)
            | Some msg \<Rightarrow>
                (let warn = [Warning (''Download attempt '' @ num_str other (of_nat attempt + 1) @
                                      ''/'' @ num_str other (maxRetries + 1) @
                                      '' failed: '' @ msg)]
                 in if non_retryable msg then (Threw Rethrow msg, pre @ evs @ warn)
                    else if of_nat attempt \<ge> maxRetries
                    then (Threw LastAttempt
                            (''Failed to download after '' @ num_str other (maxRetries + 1) @
                             '' attempts: '' @ msg),
                          pre @ evs @ warn)
                    else
                      (let (res, rest) =
                             retry_loop other net url destPath maxRetries retryDelayMs (attempt + 1)
                       in (res, pre @ evs @ warn @ rest))))
      else (Threw AfterLoop ''Download failed for unknown reason'', []))"
  by pat_completeness auto
termination
proof (relation "measure (\<lambda>(other, net, url, destPath, maxRetries, retryDelayMs, attempt).
                    nat (\<lfloor>maxRetries\<rfloor> + 1 - int attempt))")
  show "wf (measure (\<lambda>(other, net, url, destPath, maxRetries, retryDelayMs, attempt).
                    nat (\<lfloor>maxRetries\<rfloor> + 1 - int attempt)))"
    by simp
next
  fix other :: "rat \<Rightarrow> string" and net :: network and url destPath :: string
    and maxRetries retryDelayMs :: rat and attempt :: nat
  assume "of_nat attempt \<le> maxRetries"
  then have "int attempt \<le> \<lfloor>maxRetries\<rfloor>"
    by (simp add: le_floor_iff)
  then show "((other, net, url, destPath, maxRetries, retryDelayMs, attempt + 1),
              (other, net, url, destPath, maxRetries, retryDelayMs, attempt))
             \<in> measure (\<lambda>(other, net, url, destPath, maxRetries, retryDelayMs, attempt).
                    nat (\<lfloor>maxRetries\<rfloor> + 1 - int attempt))"
    by simp
qed

declare retry_loop.simps [simp del]

definition downloadFile ::
  "(rat \<Rightarrow> string) \<Rightarrow> network \<Rightarrow> string \<Rightarrow> string \<Rightarrow> rat \<Rightarrow> rat \<Rightarrow> outcome \<times> event list"
where
  "downloadFile other net url destPath maxRetries retryDelayMs =
     retry_loop other net url destPath maxRetries retryDelayMs 0"


fun requests :: "event list \<Rightarrow> nat" where
  "requests [] = 0"
| "requests (HttpGet _ # es) = Suc (requests es)"
| "requests (_ # es) = requests es"





subsection \<open>getPlatform\<close>

datatype Platform = Linux | Darwin | Win32

datatype Architecture = X64 | Arm64

record PlatformInfo =
  platform :: Platform
  arch :: Architecture

text \<open>The string each value of the two union types stands for.\<close>

fun platform_name :: "Platform \<Rightarrow> string" where
  "platform_name Linux = ''linux''"
| "platform_name Darwin = ''darwin''"
| "platform_name Win32 = ''win32''"

fun arch_name :: "Architecture \<Rightarrow> string" where
  "arch_name X64 = ''x64''"
| "arch_name Arm64 = ''arm64''"

text \<open>
  \<^verbatim>\<open>process.platform\<close> and \<^verbatim>\<open>process.arch\<close> are the two arguments; a thrown error is
  \<open>Inl\<close> of its message.
\<close>

definition getPlatform :: "string \<Rightarrow> string \<Rightarrow> string + PlatformInfo" where
  "getPlatform nodePlatform nodeArch =
     (case (if nodePlatform = ''linux'' then Inr Linux
            else if nodePlatform = ''darwin'' then Inr Darwin
            else if nodePlatform = ''win32'' then Inr Win32
            else Inl (''Unsupported platform: '' @ nodePlatform)) of
        Inl e \<Rightarrow> Inl e
      | Inr p \<Rightarrow>
          (case (if nodeArch = ''x64'' then Inr X64
                 else if nodeArch = ''arm64'' then Inr Arm64
                 else Inl (''Unsupported architecture: '' @ nodeArch)) of
             Inl e \<Rightarrow> Inl e
           | Inr a \<Rightarrow> Inr \<lparr>platform = p, arch = a\<rparr>))"

subsection \<open>Sample environments\<close>

text \<open>Concrete environments and a concrete renderer, for evaluating the functions.\<close>

definition unrendered :: "rat \<Rightarrow> string" where
  "unrendered x = ''?''"


definition always_responds :: "nat \<Rightarrow> string \<Rightarrow> (string \<times> string) list \<Rightarrow> network" where
  "always_responds statusCode statusMessage headers k =
     \<lparr>get_result = Resolves statusCode statusMessage headers, destDirExists = True,
      mkdirError = None, streamError = None\<rparr>"


section \<open>The task synchronization engine\<close>

subsection \<open>Data model\<close>

text \<open>
  Modelled from the spec: the repository holds the download utility and the shared type
  declarations only; the synchronization engine the spec describes (task parser, issue
  synchronizer, status reconciler, cross-repository tagging) has no source file. The
  definitions of this section follow the spec's sections 3, 4 and 6. \<open>TaskStatus\<close> is the
  three-valued status of section 3 (and the \<^verbatim>\<open>TaskStatus\<close> type the repository declares).
\<close>

datatype TaskStatus = not_started | in_progress | completed

text \<open>Modelled from the spec: the TaskRecord of section 3, field by field.\<close>

record TaskRecord =
  specName :: string
  taskId :: string
  title :: string
  description :: string
  status :: TaskStatus
  requirementRefs :: "string list"
  isOptional :: bool
  parentTaskId :: "string option"
  sourceFile :: string
  sourceLineRange :: "nat \<times> nat"

text \<open>Modelled from the spec: the issue state of section 3, \<open>open\<close> or \<open>closed\<close>.\<close>

datatype IssueState = IssueOpen | IssueClosed

text \<open>
  Modelled from the spec: the IssueRecord of section 3. Its title field is named
  \<open>issueTitle\<close>, the name \<open>title\<close> being taken by the TaskRecord.
\<close>

record IssueRecord =
  number :: nat
  issueTitle :: string
  body :: string
  state :: IssueState
  labels :: "string set"
  sourceRepo :: string

text \<open>Modelled from the spec: the SyncKey \<open>(specName, taskId, repoIdentifier)\<close> of section 3.\<close>

type_synonym SyncKey = "string \<times> string \<times> string"

subsection \<open>Task parser\<close>

text \<open>
  Modelled from the spec: the task parser of section 4.2 and the file format of section 6.
  Indentation is the run of leading spaces and tabs of a line.
\<close>

definition is_blank :: "char \<Rightarrow> bool" where
  "is_blank c = (c = CHR '' '' \<or> c = CHR 0x09)"

definition indent_of :: "string \<Rightarrow> nat" where
  "indent_of l = length (takeWhile is_blank l)"

definition unindent :: "string \<Rightarrow> string" where
  "unindent l = dropWhile is_blank l"

text \<open>
  Modelled from the spec: the checkbox of a checklist line, \<^verbatim>\<open>- [ ]\<close> or \<^verbatim>\<open>- [x]\<close> after the
  indentation; \<open>checkbox_of\<close> also returns what follows it on the line.
\<close>

datatype checkbox = Unchecked | Checked

definition checkbox_of :: "string \<Rightarrow> (checkbox \<times> string) option" where
  "checkbox_of l =
     (let s = unindent l in
      if startsWith s ''- [ ]'' then Some (Unchecked, drop 5 s)
      else if startsWith s ''- [x]'' then Some (Checked, drop 5 s)
      else None)"

definition is_checklist :: "string \<Rightarrow> bool" where
  "is_checklist l = (checkbox_of l \<noteq> None)"

text \<open>
  Modelled from the spec: a task id is a dotted hierarchical string such as \<^verbatim>\<open>3.2.1\<close>: here a
  non-empty run of digits and dots that starts with a digit.
\<close>

definition is_digit :: "char \<Rightarrow> bool" where
  "is_digit c = (c \<in> set ''0123456789'')"

definition is_task_id :: "string \<Rightarrow> bool" where
  "is_task_id s = (s \<noteq> [] \<and> is_digit (hd s) \<and> (\<forall>c \<in> set s. is_digit c \<or> c = CHR ''.''))"

text \<open>
  Modelled from the spec: the shape \<^verbatim>\<open>- [ ] <id> <title>\<close> of a checklist line, with an optional
  \<^verbatim>\<open>*\<close> after the id for an optional task. The result is \<open>None\<close> for a line that is no
  checklist line and for a checklist line whose id is missing.
\<close>

definition line_task :: "string \<Rightarrow> (checkbox \<times> string \<times> bool \<times> string) option" where
  "line_task l =
     (case checkbox_of l of
        None \<Rightarrow> None
      | Some (cb, rest) \<Rightarrow>
          (let r = dropWhile is_blank rest;
               tok = takeWhile (\<lambda>c. \<not> is_blank c) r;
               ti = dropWhile is_blank (dropWhile (\<lambda>c. \<not> is_blank c) r);
               opt = (tok \<noteq> [] \<and> last tok = CHR ''*'');
               ident = (if opt then butlast tok else tok)
           in if is_task_id ident then Some (cb, ident, opt, ti) else None))"

definition line_task_id :: "string \<Rightarrow> string option" where
  "line_task_id l = map_option (\<lambda>(cb, ident, opt, ti). ident) (line_task l)"

text \<open>
  Modelled from the spec: the annotation line \<^verbatim>\<open>_Requirements: <id>, <id>, ..._\<close>, its references
  separated by commas.
\<close>

fun split_on :: "char \<Rightarrow> string \<Rightarrow> string list" where
  "split_on c [] = [[]]"
| "split_on c (x # xs) =
     (if x = c then [] # split_on c xs
      else (case split_on c xs of [] \<Rightarrow> [[x]] | p # ps \<Rightarrow> (x # p) # ps))"

definition trim :: "string \<Rightarrow> string" where
  "trim s = rev (dropWhile is_blank (rev (dropWhile is_blank s)))"

definition requirements_of :: "string \<Rightarrow> string list option" where
  "requirements_of l =
     (let s = trim l in
      if startsWith s ''_Requirements:'' \<and> last s = CHR ''_''
      then Some (map trim (split_on (CHR '','') (butlast (drop 14 s))))
      else None)"

text \<open>
  Modelled from the spec: the warning logged for a malformed line (missing id, or an id already
  used in the file), with the number of the line.
\<close>

datatype parse_warning = MissingId nat | DuplicateId nat string

text \<open>
  Modelled from the spec: what the parser carries from line to line: the records so far in
  document order, the warnings, the indentation and id of each parsed task (latest first) and
  the number of the last line read.
\<close>

record parse_state =
  records :: "TaskRecord list"
  warnings :: "parse_warning list"
  scopes :: "(nat \<times> string) list"
  lineNo :: nat

text \<open>
  Modelled from the spec: a line is a child of the nearest preceding task line with strictly
  smaller indentation.
\<close>

fun parent_of :: "nat \<Rightarrow> (nat \<times> string) list \<Rightarrow> string option" where
  "parent_of ind [] = None"
| "parent_of ind ((i, ident) # rest) = (if i < ind then Some ident else parent_of ind rest)"

text \<open>
  Modelled from the spec: a requirements annotation is attached to the most recently parsed
  task.
\<close>

definition attach_requirements :: "nat \<Rightarrow> string list \<Rightarrow> TaskRecord list \<Rightarrow> TaskRecord list" where
  "attach_requirements n refs rs =
     (case rev rs of
        [] \<Rightarrow> []
      | r # earlier \<Rightarrow>
          rev earlier @ [r\<lparr>requirementRefs := refs, sourceLineRange := (fst (sourceLineRange r), n)\<rparr>])"

text \<open>
  Modelled from the spec: one step of the parser. A malformed checklist line is skipped with a
  warning and the state is otherwise kept, so that parsing goes on with the next line. A checked
  box is \<open>completed\<close>; an unchecked one is \<open>in_progress\<close> when the in-progress marker
  convention (the parameter \<open>inProgressMarker\<close>, which the spec leaves open) holds of the line,
  and \<open>not_started\<close> otherwise. The spec does not say where a description comes from: it is
  left empty.
\<close>

definition parse_line ::
  "(string \<Rightarrow> bool) \<Rightarrow> string \<Rightarrow> string \<Rightarrow> parse_state \<Rightarrow> string \<Rightarrow> parse_state" where
  "parse_line inProgressMarker spec src st l =
     (let n = Suc (lineNo st) in
      if is_checklist l then
        (case line_task l of
           None \<Rightarrow> st\<lparr>warnings := warnings st @ [MissingId n], lineNo := n\<rparr>
         | Some (cb, ident, opt, ti) \<Rightarrow>
             if ident \<in> set (map taskId (records st))
             then st\<lparr>warnings := warnings st @ [DuplicateId n ident], lineNo := n\<rparr>
             else st\<lparr>records := records st @
                       [\<lparr>specName = spec, taskId = ident, title = ti, description = [],
                         status = (if cb = Checked then completed
                                   else if inProgressMarker l then in_progress else not_started),
                         requirementRefs = [], isOptional = opt,
                         parentTaskId = parent_of (indent_of l) (scopes st),
                         sourceFile = src, sourceLineRange = (n, n)\<rparr>],
                     scopes := (indent_of l, ident) # scopes st,
                     lineNo := n\<rparr>)
      else
        (case requirements_of l of
           Some refs \<Rightarrow> st\<lparr>records := attach_requirements n refs (records st), lineNo := n\<rparr>
         | None \<Rightarrow> st\<lparr>lineNo := n\<rparr>))"

text \<open>
  Modelled from the spec: the parser of one file, given as its lines: the records in document
  order and the warnings. It is a total function and its result has no error alternative.
\<close>

definition parseTasks ::
  "(string \<Rightarrow> bool) \<Rightarrow> string \<Rightarrow> string \<Rightarrow> string list \<Rightarrow> TaskRecord list \<times> parse_warning list" where
  "parseTasks inProgressMarker spec src ls =
     (let st = foldl (parse_line inProgressMarker spec src)
                 \<lparr>records = [], warnings = [], scopes = [], lineNo = 0\<rparr> ls
      in (records st, warnings st))"

subsection \<open>Tracker\<close>

text \<open>
  Modelled from the spec: the remote tracker, as the list of its issues in order of creation,
  with the operations of the tracker client of section 6. Tracker calls are modelled as
  succeeding; adding an issue to a project is not modelled.
\<close>

type_synonym tracker = "IssueRecord list"

text \<open>
  Modelled from the spec: what a run is configured with. The normalization applied before
  titles and bodies are compared and the fixed body template are named by the spec but not
  given, so they are parameters; the template is a function of the four fields the body
  embeds.
\<close>

record engine_config =
  normalize :: "string \<Rightarrow> string"
  template :: "string \<Rightarrow> string \<Rightarrow> string \<Rightarrow> string list \<Rightarrow> string"
  crossRepo :: bool
  repoIdentifier :: string

text \<open>Modelled from the spec: the key of a task, in the repository the engine runs for.\<close>

definition syncKey :: "engine_config \<Rightarrow> TaskRecord \<Rightarrow> SyncKey" where
  "syncKey cfg t = (specName t, taskId t, repoIdentifier cfg)"

text \<open>
  Modelled from the spec: the labels that encode a key, \<^verbatim>\<open>spec:<name>\<close>, \<^verbatim>\<open>task:<id>\<close> and, in
  cross-repository mode, \<^verbatim>\<open>repo:<identifier>\<close> (sections 4.5 and 6).
\<close>

definition keyLabels :: "bool \<Rightarrow> SyncKey \<Rightarrow> string set" where
  "keyLabels cross k =
     (case k of (spec, task, repo) \<Rightarrow>
        {''spec:'' @ spec, ''task:'' @ task} \<union> (if cross then {''repo:'' @ repo} else {}))"

text \<open>Modelled from the spec: the tracker-side search for the issues tagged with a key.\<close>

definition carries :: "string set \<Rightarrow> IssueRecord \<Rightarrow> bool" where
  "carries ls i = (ls \<subseteq> labels i)"

definition searchIssues :: "string set \<Rightarrow> tracker \<Rightarrow> IssueRecord list" where
  "searchIssues ls tr = filter (carries ls) tr"

text \<open>
  Modelled from the spec: of several issues carrying one key the lowest-numbered is canonical
  (section 4.3).
\<close>

fun lowest :: "IssueRecord list \<Rightarrow> IssueRecord option" where
  "lowest [] = None"
| "lowest (i # rest) =
     (case lowest rest of
        None \<Rightarrow> Some i
      | Some j \<Rightarrow> if number i \<le> number j then Some i else Some j)"

definition canonical :: "engine_config \<Rightarrow> TaskRecord \<Rightarrow> tracker \<Rightarrow> IssueRecord option" where
  "canonical cfg t tr = lowest (searchIssues (keyLabels (crossRepo cfg) (syncKey cfg t)) tr)"

text \<open>
  Modelled from the spec: \<^verbatim>\<open>createIssue\<close>, \<^verbatim>\<open>updateIssue\<close> and the write of an issue's state.
  A new issue is open and gets a number above all numbers in use. The client interface of
  section 6 lists no operation that sets the state, which section 4.4 requires:
  \<open>setIssueState\<close> stands for it.
\<close>

definition nextNumber :: "tracker \<Rightarrow> nat" where
  "nextNumber tr = Suc (fold max (map number tr) 0)"

definition createIssue :: "string \<Rightarrow> string \<Rightarrow> string set \<Rightarrow> string \<Rightarrow> tracker \<Rightarrow> tracker" where
  "createIssue ti bo ls repo tr =
     tr @ [\<lparr>number = nextNumber tr, issueTitle = ti, body = bo, state = IssueOpen,
            labels = ls, sourceRepo = repo\<rparr>]"

definition updateIssue :: "nat \<Rightarrow> string \<Rightarrow> string \<Rightarrow> string set \<Rightarrow> tracker \<Rightarrow> tracker" where
  "updateIssue n ti bo ls tr =
     map (\<lambda>i. if number i = n then i\<lparr>issueTitle := ti, body := bo, labels := ls\<rparr> else i) tr"

definition setIssueState :: "nat \<Rightarrow> IssueState \<Rightarrow> tracker \<Rightarrow> tracker" where
  "setIssueState n st tr = map (\<lambda>i. if number i = n then i\<lparr>state := st\<rparr> else i) tr"

subsection \<open>Issue synchronizer\<close>

text \<open>
  Modelled from the spec: what a run does and logs: the writes to the tracker, the rewriting of a
  checkbox in the task file, and the conflict warning of section 4.3. Every event but the
  warning is a write.
\<close>

datatype sync_event =
    IssueCreated nat
  | IssueUpdated nat
  | IssueStateSet nat IssueState
  | CheckboxRewritten string TaskStatus
  | ConflictWarning SyncKey

fun is_write :: "sync_event \<Rightarrow> bool" where
  "is_write (ConflictWarning k) = False"
| "is_write e = True"

text \<open>
  Modelled from the spec: the desired content of the issue of a task: a title made of the id and
  the title of the task, and the templated body.
\<close>

definition desiredTitle :: "TaskRecord \<Rightarrow> string" where
  "desiredTitle t = taskId t @ '' '' @ title t"

definition desiredBody :: "engine_config \<Rightarrow> TaskRecord \<Rightarrow> string" where
  "desiredBody cfg t = template cfg (specName t) (taskId t) (description t) (requirementRefs t)"

text \<open>
  Modelled from the spec: the synchronizer's step for one task (section 4.3): search by key;
  create when no issue carries the key; otherwise compare the normalized title and body of the
  canonical issue with the desired ones and update only when they differ, leaving its labels as
  they are. More than one carrier gives a conflict warning, and nothing is merged or deleted.
\<close>

definition syncTask :: "engine_config \<Rightarrow> TaskRecord \<Rightarrow> tracker \<Rightarrow> tracker \<times> sync_event list" where
  "syncTask cfg t tr =
     (let k = syncKey cfg t;
          found = searchIssues (keyLabels (crossRepo cfg) k) tr;
          warn = (if length found > 1 then [ConflictWarning k] else [])
      in case lowest found of
           None \<Rightarrow>
             (createIssue (desiredTitle t) (desiredBody cfg t) (keyLabels (crossRepo cfg) k)
                (repoIdentifier cfg) tr,
              [IssueCreated (nextNumber tr)])
         | Some c \<Rightarrow>
             if normalize cfg (issueTitle c) = normalize cfg (desiredTitle t) \<and>
                normalize cfg (body c) = normalize cfg (desiredBody cfg t)
             then (tr, warn)
             else (updateIssue (number c) (desiredTitle t) (desiredBody cfg t) (labels c) tr,
                   warn @ [IssueUpdated (number c)]))"


subsection \<open>Status reconciler\<close>

text \<open>Modelled from the spec: the two sync modes of section 4.4.\<close>

datatype sync_mode = OneWay | TwoWay

text \<open>
  Modelled from the spec: the issue state a task status asks for (\<open>completed\<close> asks for closed,
  the two others for open), and the status an issue state maps back to in two-way mode.
\<close>

definition desiredState :: "TaskStatus \<Rightarrow> IssueState" where
  "desiredState s = (if s = completed then IssueClosed else IssueOpen)"

definition statusFor :: "IssueState \<Rightarrow> TaskStatus" where
  "statusFor st = (case st of IssueOpen \<Rightarrow> in_progress | IssueClosed \<Rightarrow> completed)"

text \<open>
  Modelled from the spec: the reconciler's step for one task (section 4.4). Nothing is done when
  the task has no issue or when status and state agree. Otherwise, in two-way mode with the
  issue updated after the task file was modified, the checkbox of the task is rewritten; in
  every other case (one-way mode, or the file being at least as recent) the state of the issue
  is set. The two timestamps, \<open>fileModified\<close> and \<open>lastUpdated\<close> of an issue number, are
  read from outside.
\<close>

definition reconcileTask ::
  "engine_config \<Rightarrow> sync_mode \<Rightarrow> nat \<Rightarrow> (nat \<Rightarrow> nat) \<Rightarrow> TaskRecord \<Rightarrow> tracker \<Rightarrow>
   TaskRecord \<times> tracker \<times> sync_event list" where
  "reconcileTask cfg mode fileModified lastUpdated t tr =
     (case canonical cfg t tr of
        None \<Rightarrow> (t, tr, [])
      | Some c \<Rightarrow>
          if state c = desiredState (status t) then (t, tr, [])
          else if mode = TwoWay \<and> fileModified < lastUpdated (number c)
          then (t\<lparr>status := statusFor (state c)\<rparr>, tr,
                [CheckboxRewritten (taskId t) (statusFor (state c))])
          else (t, setIssueState (number c) (desiredState (status t)) tr,
                [IssueStateSet (number c) (desiredState (status t))]))"

text \<open>Modelled from the spec: the reconciler over the tasks; it returns the tasks as rewritten.\<close>

fun reconcile ::
  "engine_config \<Rightarrow> sync_mode \<Rightarrow> nat \<Rightarrow> (nat \<Rightarrow> nat) \<Rightarrow> TaskRecord list \<Rightarrow> tracker \<Rightarrow>
   TaskRecord list \<times> tracker \<times> sync_event list" where
  "reconcile cfg mode fm lu [] tr = ([], tr, [])"
| "reconcile cfg mode fm lu (t # ts) tr =
     (let (t', tr1, e1) = reconcileTask cfg mode fm lu t tr;
          (ts', tr2, e2) = reconcile cfg mode fm lu ts tr1
      in (t' # ts', tr2, e1 @ e2))"

declare reconcile.simps [simp del]


subsection \<open>Predicates for stating the properties\<close>

text \<open>
  The lines of a file, read as the spec reads them: the ids of its task lines; a line is well
  formed when it has an id that no earlier line has, and a checklist line is malformed when its
  id is missing or is the id of an earlier line.
\<close>

definition task_ids :: "string list \<Rightarrow> string list" where
  "task_ids ls = List.map_filter line_task_id ls"

definition well_formed_at :: "string list \<Rightarrow> nat \<Rightarrow> bool" where
  "well_formed_at ls i =
     (case line_task_id (ls ! i) of
        None \<Rightarrow> False
      | Some ident \<Rightarrow> ident \<notin> set (task_ids (take i ls)))"

definition malformed_at :: "string list \<Rightarrow> nat \<Rightarrow> bool" where
  "malformed_at ls i =
     (is_checklist (ls ! i) \<and>
      (case line_task_id (ls ! i) of
         None \<Rightarrow> True
       | Some ident \<Rightarrow> ident \<in> set (task_ids (take i ls))))"

text \<open>The warning due for a malformed line.\<close>

definition warning_at :: "string list \<Rightarrow> nat \<Rightarrow> parse_warning" where
  "warning_at ls i =
     (case line_task_id (ls ! i) of
        None \<Rightarrow> MissingId (Suc i)
      | Some ident \<Rightarrow> DuplicateId (Suc i) ident)"

text \<open>The state of the parser after the lines of a file.\<close>

definition parse_run :: "(string \<Rightarrow> bool) \<Rightarrow> string \<Rightarrow> string \<Rightarrow> string list \<Rightarrow> parse_state" where
  "parse_run mk spec src ls =
     foldl (parse_line mk spec src) \<lparr>records = [], warnings = [], scopes = [], lineNo = 0\<rparr> ls"

text \<open>The ids of the well-formed lines and the warnings of the malformed ones, in order.\<close>

definition ids_at :: "string list \<Rightarrow> string list" where
  "ids_at ls = map (\<lambda>i. the (line_task_id (ls ! i))) (filter (well_formed_at ls) [0..<length ls])"

definition warnings_at :: "string list \<Rightarrow> parse_warning list" where
  "warnings_at ls = map (warning_at ls) (filter (malformed_at ls) [0..<length ls])"

text \<open>The labels of the key of a task.\<close>

definition taskLabels :: "engine_config \<Rightarrow> TaskRecord \<Rightarrow> string set" where
  "taskLabels cfg t = keyLabels (crossRepo cfg) (syncKey cfg t)"

text \<open>
  A tracker is in order when no two issues share a number and no issue carries two different
  labels of one kind (two specs, two tasks or two repositories). The empty tracker is in order
  and the engine keeps a tracker in order.
\<close>

definition single_valued_label :: "string \<Rightarrow> IssueRecord \<Rightarrow> bool" where
  "single_valued_label p i = (\<forall>a b. p @ a \<in> labels i \<longrightarrow> p @ b \<in> labels i \<longrightarrow> a = b)"

definition well_tagged :: "IssueRecord \<Rightarrow> bool" where
  "well_tagged i =
     (single_valued_label ''spec:'' i \<and> single_valued_label ''task:'' i \<and>
      single_valued_label ''repo:'' i)"

definition tracker_ok :: "tracker \<Rightarrow> bool" where
  "tracker_ok tr = (distinct (map number tr) \<and> (\<forall>i \<in> set tr. well_tagged i))"

text \<open>
  A task is settled when its canonical issue has the desired title and body up to
  normalization, and agreed when the state of its canonical issue, if there is one, is the
  state its status asks for.
\<close>

definition settled :: "engine_config \<Rightarrow> TaskRecord \<Rightarrow> tracker \<Rightarrow> bool" where
  "settled cfg t tr =
     (\<exists>c. canonical cfg t tr = Some c \<and>
          normalize cfg (issueTitle c) = normalize cfg (desiredTitle t) \<and>
          normalize cfg (body c) = normalize cfg (desiredBody cfg t))"

definition agreed :: "engine_config \<Rightarrow> TaskRecord \<Rightarrow> tracker \<Rightarrow> bool" where
  "agreed cfg t tr =
     (case canonical cfg t tr of None \<Rightarrow> True | Some c \<Rightarrow> state c = desiredState (status t))"

text \<open>Two tasks are separate when their keys differ in a component that is encoded in labels.\<close>

definition separate :: "engine_config \<Rightarrow> TaskRecord \<Rightarrow> engine_config \<Rightarrow> TaskRecord \<Rightarrow> bool" where
  "separate cfg t cfg' t' =
     (specName t \<noteq> specName t' \<or> taskId t \<noteq> taskId t' \<or>
      (crossRepo cfg \<and> crossRepo cfg' \<and> repoIdentifier cfg \<noteq> repoIdentifier cfg'))"

text \<open>An issue matches a task when its title and body are the desired ones up to normalization.\<close>

definition matches :: "engine_config \<Rightarrow> TaskRecord \<Rightarrow> IssueRecord \<Rightarrow> bool" where
  "matches cfg t c =
     (normalize cfg (issueTitle c) = normalize cfg (desiredTitle t) \<and>
      normalize cfg (body c) = normalize cfg (desiredBody cfg t))"

text \<open>No two tasks of a list have the same spec name and id.\<close>

definition distinct_tasks :: "TaskRecord list \<Rightarrow> bool" where
  "distinct_tasks ts = distinct (map (\<lambda>t. (specName t, taskId t)) ts)"

text \<open>A change of tracker that rewrites states only.\<close>

definition state_change :: "(IssueRecord \<Rightarrow> IssueRecord) \<Rightarrow> bool" where
  "state_change f = (\<forall>i. \<exists>s. f i = i\<lparr>state := s\<rparr>)"

text \<open>The components of the reconciler's result.\<close>

definition rec_task :: "TaskRecord \<times> tracker \<times> sync_event list \<Rightarrow> TaskRecord" where
  "rec_task r = fst r"

definition rec_tracker :: "'a \<times> tracker \<times> sync_event list \<Rightarrow> tracker" where
  "rec_tracker r = fst (snd r)"

definition rec_events :: "'a \<times> tracker \<times> sync_event list \<Rightarrow> sync_event list" where
  "rec_events r = snd (snd r)"



subsection \<open>Sample inputs\<close>

text \<open>Sample inputs: no in-progress marker, a template, configurations, a task and a file.\<close>

definition no_marker :: "string \<Rightarrow> bool" where
  "no_marker l = False"





definition ten_lines :: "string list" where
  "ten_lines =
     [''- [x] 1 Project setup'',
      ''- [ ] 2 Implement shared utility modules'',
      ''  - [ ] 2.1 Create download utility'',
      ''  - [ ] 2.2* Write property test'',
      ''  - [ ] Untitled work without an id'',
      ''  - [x] 2.3 Checksum utility'',
      ''- [ ] 3 GitHub API utility'',
      ''  - [ ] 3.1 Client'',
      ''  - [ ] 3.2 Comments'',
      ''- [ ] 4 Checkpoint'']"


section \<open>Properties of downloadFile\<close>

subsection \<open>Unfolding the loop\<close>




























text \<open>The decision reads the message only: a 503 whose status message quotes a 4xx is not retried,
  and a 404 whose status message contains 429 is retried.\<close>

lemma message_decides_not_status:
  "fst (downloadFile unrendered (always_responds 503 ''upstream said HTTP 404'' []) ''u'' ''d'' 3 1000)
     = Threw Rethrow ''HTTP 503: upstream said HTTP 404'' \<and>
   requests (snd (downloadFile unrendered (always_responds 404 ''no page 429'' []) ''u'' ''d'' 3 1000))
     = 4"
  by code_simp


lemma isInteger_of_nat: "isInteger (of_nat n)"
  by (simp add: isInteger_def)











text \<open>
  Claim C8. \<open>getPlatform\<close> returns the pair of \<^verbatim>\<open>process.platform\<close> and \<^verbatim>\<open>process.arch\<close>,
  unchanged, when the platform is one of linux, darwin, win32 and the architecture one of
  x64, arm64; for any other platform it throws the unsupported-platform error, and for a
  supported platform with any other architecture the unsupported-architecture error. These
  three cases cover every input, so a value is returned exactly in the first.
\<close>

theorem getPlatform_cases:
  "(p \<in> {''linux'', ''darwin'', ''win32''} \<and> a \<in> {''x64'', ''arm64''} \<longrightarrow>
      (\<exists>r. getPlatform p a = Inr r \<and> platform_name (platform r) = p \<and> arch_name (arch r) = a)) \<and>
   (p \<notin> {''linux'', ''darwin'', ''win32''} \<longrightarrow>
      getPlatform p a = Inl (''Unsupported platform: '' @ p)) \<and>
   (p \<in> {''linux'', ''darwin'', ''win32''} \<and> a \<notin> {''x64'', ''arm64''} \<longrightarrow>
      getPlatform p a = Inl (''Unsupported architecture: '' @ a))"
  by (auto simp: getPlatform_def)

text \<open>One input for each of the three cases.\<close>

theorem getPlatform_cases_witness:
  "(\<exists>r. getPlatform ''darwin'' ''arm64'' = Inr r \<and> platform_name (platform r) = ''darwin'' \<and>
        arch_name (arch r) = ''arm64'') \<and>
   getPlatform ''aix'' ''s390x'' = Inl ''Unsupported platform: aix'' \<and>
   getPlatform ''linux'' ''s390x'' = Inl ''Unsupported architecture: s390x''"
  using getPlatform_cases [of "''darwin''" "''arm64''"]
    getPlatform_cases [of "''aix''" "''s390x''"]
    getPlatform_cases [of "''linux''" "''s390x''"]
  by simp

section \<open>Properties of the synchronization engine\<close>

lemma parseTasks_run:
  "parseTasks mk spec src ls = (records (parse_run mk spec src ls), warnings (parse_run mk spec src ls))"
  by (simp add: parseTasks_def parse_run_def Let_def)

lemma line_task_checklist: "line_task l = Some x \<Longrightarrow> is_checklist l"
  by (auto simp: line_task_def is_checklist_def split: option.splits)

lemma task_ids_snoc:
  "task_ids (ls @ [l]) = task_ids ls @ (case line_task_id l of None \<Rightarrow> [] | Some ident \<Rightarrow> [ident])"
  by (simp add: task_ids_def map_filter_def split: option.splits)

lemma take_prefix: "i < length ls \<Longrightarrow> take i (ls @ [l]) = take i ls"
  by simp

lemma well_formed_at_prefix: "i < length ls \<Longrightarrow> well_formed_at (ls @ [l]) i = well_formed_at ls i"
  by (simp add: well_formed_at_def nth_append take_prefix del: take_append split: option.splits)

lemma malformed_at_prefix: "i < length ls \<Longrightarrow> malformed_at (ls @ [l]) i = malformed_at ls i"
  by (simp add: malformed_at_def nth_append take_prefix del: take_append split: option.splits)

lemma warning_at_prefix: "i < length ls \<Longrightarrow> warning_at (ls @ [l]) i = warning_at ls i"
  by (simp add: warning_at_def nth_append)

lemma line_id_prefix: "i < length ls \<Longrightarrow> line_task_id ((ls @ [l]) ! i) = line_task_id (ls ! i)"
  by (simp add: nth_append)

lemma ids_at_snoc:
  "ids_at (ls @ [l]) =
     ids_at ls @ (if well_formed_at (ls @ [l]) (length ls) then [the (line_task_id l)] else [])"
proof -
  have f: "filter (well_formed_at (ls @ [l])) [0..<length ls] = filter (well_formed_at ls) [0..<length ls]"
    by (rule filter_cong) (simp_all add: well_formed_at_prefix)
  have m: "map (\<lambda>i. the (line_task_id ((ls @ [l]) ! i))) (filter (well_formed_at ls) [0..<length ls]) =
           map (\<lambda>i. the (line_task_id (ls ! i))) (filter (well_formed_at ls) [0..<length ls])"
    by (rule map_cong) (simp_all add: nth_append)
  show ?thesis
    by (simp add: ids_at_def f m)
qed

lemma warnings_at_snoc:
  "warnings_at (ls @ [l]) =
     warnings_at ls @ (if malformed_at (ls @ [l]) (length ls) then [warning_at (ls @ [l]) (length ls)] else [])"
proof -
  have f: "filter (malformed_at (ls @ [l])) [0..<length ls] = filter (malformed_at ls) [0..<length ls]"
    by (rule filter_cong) (simp_all add: malformed_at_prefix)
  have m: "map (warning_at (ls @ [l])) (filter (malformed_at ls) [0..<length ls]) =
           map (warning_at ls) (filter (malformed_at ls) [0..<length ls])"
    by (rule map_cong) (simp_all add: warning_at_prefix)
  show ?thesis
    by (simp add: warnings_at_def f m)
qed

lemma attach_requirements_ids: "map taskId (attach_requirements n refs rs) = map taskId rs"
proof (cases "rev rs")
  case Nil
  then show ?thesis by (simp add: attach_requirements_def)
next
  case (Cons r earlier)
  then have "rs = rev earlier @ [r]" by (metis rev.simps(2) rev_rev_ident)
  then show ?thesis by (simp add: attach_requirements_def)
qed

lemma attach_requirements_id_set:
  "taskId ` set (attach_requirements n refs rs) = taskId ` set rs"
  using attach_requirements_ids [of n refs rs] by (metis set_map)


lemma parse_run_snoc:
  "parse_run mk spec src (ls @ [l]) = parse_line mk spec src (parse_run mk spec src ls) l"
  by (simp add: parse_run_def)

lemma parse_line_cases [case_names missing duplicate task requirements other]:
  obtains
    "is_checklist l" "line_task_id l = None"
    "parse_line mk spec src st l =
       st\<lparr>warnings := warnings st @ [MissingId (Suc (lineNo st))], lineNo := Suc (lineNo st)\<rparr>"
  | ident where "is_checklist l" "line_task_id l = Some ident"
      "ident \<in> taskId ` set (records st)"
      "parse_line mk spec src st l =
         st\<lparr>warnings := warnings st @ [DuplicateId (Suc (lineNo st)) ident],
            lineNo := Suc (lineNo st)\<rparr>"
  | ident r where "is_checklist l" "line_task_id l = Some ident"
      "ident \<notin> taskId ` set (records st)" "taskId r = ident" "specName r = spec"
      "parse_line mk spec src st l =
         st\<lparr>records := records st @ [r],
            scopes := (indent_of l, ident) # scopes st, lineNo := Suc (lineNo st)\<rparr>"
  | refs where "\<not> is_checklist l" "line_task_id l = None"
      "parse_line mk spec src st l =
         st\<lparr>records := attach_requirements (Suc (lineNo st)) refs (records st),
            lineNo := Suc (lineNo st)\<rparr>"
  | "\<not> is_checklist l" "line_task_id l = None"
      "parse_line mk spec src st l = st\<lparr>lineNo := Suc (lineNo st)\<rparr>"
proof (cases "is_checklist l")
  case True
  show ?thesis
  proof (cases "line_task l")
    case None
    then have "line_task_id l = None" by (simp add: line_task_id_def)
    moreover have "parse_line mk spec src st l =
       st\<lparr>warnings := warnings st @ [MissingId (Suc (lineNo st))], lineNo := Suc (lineNo st)\<rparr>"
      using True None by (simp add: parse_line_def Let_def)
    ultimately show ?thesis using that(1) True by blast
  next
    case (Some x)
    obtain cb ident opt ti where x: "x = (cb, ident, opt, ti)" by (cases x)
    have lid: "line_task_id l = Some ident" using Some x by (simp add: line_task_id_def)
    show ?thesis
    proof (cases "ident \<in> taskId ` set (records st)")
      case dup: True
      have "parse_line mk spec src st l =
         st\<lparr>warnings := warnings st @ [DuplicateId (Suc (lineNo st)) ident],
            lineNo := Suc (lineNo st)\<rparr>"
        using True Some x dup by (simp add: parse_line_def Let_def)
      then show ?thesis using that(2) True lid dup by blast
    next
      case fresh: False
      define r where "r =
        \<lparr>specName = spec, taskId = ident, title = ti, description = [],
         status = (if cb = Checked then completed
                   else if mk l then in_progress else not_started),
         requirementRefs = [], isOptional = opt,
         parentTaskId = parent_of (indent_of l) (scopes st),
         sourceFile = src, sourceLineRange = (Suc (lineNo st), Suc (lineNo st))\<rparr>"
      have "parse_line mk spec src st l =
         st\<lparr>records := records st @ [r],
            scopes := (indent_of l, ident) # scopes st, lineNo := Suc (lineNo st)\<rparr>"
        using True Some x fresh by (simp add: parse_line_def Let_def r_def)
      moreover have "taskId r = ident" "specName r = spec" by (simp_all add: r_def)
      ultimately show ?thesis using that(3) True lid fresh by blast
    qed
  qed
next
  case False
  then have "line_task l = None"
    using line_task_checklist by (cases "line_task l") auto
  then have lid: "line_task_id l = None" by (simp add: line_task_id_def)
  show ?thesis
  proof (cases "requirements_of l")
    case None
    then have "parse_line mk spec src st l = st\<lparr>lineNo := Suc (lineNo st)\<rparr>"
      using False by (simp add: parse_line_def Let_def)
    then show ?thesis using that(5) False lid by blast
  next
    case (Some refs)
    then have "parse_line mk spec src st l =
         st\<lparr>records := attach_requirements (Suc (lineNo st)) refs (records st),
            lineNo := Suc (lineNo st)\<rparr>"
      using False by (simp add: parse_line_def Let_def)
    then show ?thesis using that(4) False lid by blast
  qed
qed

lemma parse_line_lineNo:
  "lineNo (parse_line mk spec src st l) = Suc (lineNo st)"
proof (cases rule: parse_line_cases [where l = l and st = st and mk = mk and spec = spec and src = src])
  case missing
  show ?thesis by (simp only: missing(3)) (simp add: missing(1,2))
next
  case (duplicate ident)
  show ?thesis by (simp only: duplicate(4)) (simp add: duplicate(1,2,3))
next
  case (task ident r)
  show ?thesis by (simp only: task(6)) (simp add: task(1,2,3,4,5))
next
  case (requirements refs)
  show ?thesis by (simp only: requirements(3)) (simp add: requirements(1,2))
next
  case other
  show ?thesis by (simp only: other(3)) (simp add: other(1,2))
qed

lemma parse_line_warnings:
  "warnings (parse_line mk spec src st l) =
     warnings st @
     (if is_checklist l
      then (case line_task_id l of
              None \<Rightarrow> [MissingId (Suc (lineNo st))]
            | Some ident \<Rightarrow>
                if ident \<in> taskId ` set (records st)
                then [DuplicateId (Suc (lineNo st)) ident] else [])
      else [])"
proof (cases rule: parse_line_cases [where l = l and st = st and mk = mk and spec = spec and src = src])
  case missing
  show ?thesis by (simp only: missing(3)) (simp add: missing(1,2))
next
  case (duplicate ident)
  show ?thesis by (simp only: duplicate(4)) (simp add: duplicate(1,2,3))
next
  case (task ident r)
  show ?thesis by (simp only: task(6)) (simp add: task(1,2,3,4,5))
next
  case (requirements refs)
  show ?thesis by (simp only: requirements(3)) (simp add: requirements(1,2))
next
  case other
  show ?thesis by (simp only: other(3)) (simp add: other(1,2))
qed

lemma parse_line_ids:
  "map taskId (records (parse_line mk spec src st l)) =
     map taskId (records st) @
     (case line_task_id l of
        None \<Rightarrow> []
      | Some ident \<Rightarrow> if ident \<in> taskId ` set (records st) then [] else [ident])"
proof (cases rule: parse_line_cases [where l = l and st = st and mk = mk and spec = spec and src = src])
  case missing
  show ?thesis by (simp only: missing(3)) (simp add: missing(1,2))
next
  case (duplicate ident)
  show ?thesis by (simp only: duplicate(4)) (simp add: duplicate(1,2,3))
next
  case (task ident r)
  show ?thesis by (simp only: task(6)) (simp add: task(1,2,3,4,5))
next
  case (requirements refs)
  show ?thesis by (simp only: requirements(3)) (simp add: requirements(1,2) attach_requirements_ids)
next
  case other
  show ?thesis by (simp only: other(3)) (simp add: other(1,2))
qed


lemma parse_run_lineNo: "lineNo (parse_run mk spec src ls) = length ls"
proof (induction ls rule: rev_induct)
  case Nil
  then show ?case by (simp add: parse_run_def)
next
  case (snoc l ls)
  then show ?case by (simp add: parse_run_snoc parse_line_lineNo)
qed


lemma parse_run_ids:
  "map taskId (records (parse_run mk spec src ls)) = ids_at ls \<and>
   set (ids_at ls) = set (task_ids ls) \<and> distinct (ids_at ls)"
proof (induction ls rule: rev_induct)
  case Nil
  then show ?case
    by (simp add: parse_run_def ids_at_def task_ids_def map_filter_def)
next
  case (snoc l ls)
  then have ids: "map taskId (records (parse_run mk spec src ls)) = ids_at ls"
    and idset: "set (ids_at ls) = set (task_ids ls)"
    and dist: "distinct (ids_at ls)"
    by simp_all
  have seen: "taskId ` set (records (parse_run mk spec src ls)) = set (task_ids ls)"
    using ids idset by (metis set_map)
  show ?case
  proof (cases "line_task_id l")
    case None
    then show ?thesis
      using ids idset dist seen
      by (simp add: parse_run_snoc parse_line_ids ids_at_snoc well_formed_at_def task_ids_snoc)
  next
    case (Some ident)
    then show ?thesis
      using ids idset dist seen
      by (simp add: parse_run_snoc parse_line_ids ids_at_snoc well_formed_at_def task_ids_snoc
            insert_absorb)
  qed
qed

lemma parse_run_warnings: "warnings (parse_run mk spec src ls) = warnings_at ls"
proof (induction ls rule: rev_induct)
  case Nil
  then show ?case by (simp add: parse_run_def warnings_at_def)
next
  case (snoc l ls)
  have seen: "taskId ` set (records (parse_run mk spec src ls)) = set (task_ids ls)"
    using parse_run_ids [of mk spec src ls] by (metis set_map)
  show ?case
    using snoc seen
    by (simp add: parse_run_snoc parse_line_warnings warnings_at_snoc malformed_at_def
          warning_at_def parse_run_lineNo split: option.splits)
qed

text \<open>
  Claim C5. For every file the parser returns records and warnings (it has no failing case):
  the records are those of the well-formed lines, in document order, each malformed checklist
  line (missing id, or an id already used in the file) gives one warning and nothing else, and
  the lines after it are parsed as before. In particular a file with nine well-formed lines and
  one malformed line gives exactly nine records and one warning.
\<close>

theorem parser_resilience:
  "map taskId (fst (parseTasks mk spec src ls)) =
     map (\<lambda>i. the (line_task_id (ls ! i))) (filter (well_formed_at ls) [0..<length ls]) \<and>
   snd (parseTasks mk spec src ls) =
     map (warning_at ls) (filter (malformed_at ls) [0..<length ls]) \<and>
   (length (filter (well_formed_at ls) [0..<length ls]) = 9 \<and>
    length (filter (malformed_at ls) [0..<length ls]) = 1 \<longrightarrow>
      length (fst (parseTasks mk spec src ls)) = 9 \<and>
      length (snd (parseTasks mk spec src ls)) = 1)"
proof -
  have a: "map taskId (fst (parseTasks mk spec src ls)) = ids_at ls"
    and b: "snd (parseTasks mk spec src ls) = warnings_at ls"
    by (simp_all add: parseTasks_run parse_run_ids parse_run_warnings)
  have "length (fst (parseTasks mk spec src ls)) = length (ids_at ls)"
    using a by (metis length_map)
  then show ?thesis
    using a b by (simp add: ids_at_def warnings_at_def)
qed


lemma canonical_labels: "canonical cfg t tr = lowest (searchIssues (taskLabels cfg t) tr)"
  by (simp add: canonical_def taskLabels_def)

lemma taskLabels_iff:
  "x \<in> taskLabels cfg t \<longleftrightarrow>
     x = ''spec:'' @ specName t \<or> x = ''task:'' @ taskId t \<or>
     (crossRepo cfg \<and> x = ''repo:'' @ repoIdentifier cfg)"
  by (auto simp: taskLabels_def keyLabels_def syncKey_def)


lemma lowest_mem: "lowest xs = Some c \<Longrightarrow> c \<in> set xs"
  by (induction xs arbitrary: c) (auto split: option.splits if_splits)

lemma lowest_map:
  assumes "\<And>i. i \<in> set xs \<Longrightarrow> number (f i) = number i"
  shows "lowest (map f xs) = map_option f (lowest xs)"
  using assms
proof (induction xs)
  case Nil
  then show ?case by simp
next
  case (Cons x xs)
  then have ih: "lowest (map f xs) = map_option f (lowest xs)" by simp
  show ?case
  proof (cases "lowest xs")
    case None
    then show ?thesis using ih by simp
  next
    case (Some j)
    then have "j \<in> set xs" by (rule lowest_mem)
    then have "number (f j) = number j" "number (f x) = number x"
      using Cons.prems by simp_all
    then show ?thesis using ih Some by simp
  qed
qed





lemma filter_map_commute:
  "(\<And>i. i \<in> set xs \<Longrightarrow> P (f i) = P i) \<Longrightarrow> filter P (map f xs) = map f (filter P xs)"
  by (induction xs) simp_all

lemma filter_map_unaffected:
  "(\<And>i. i \<in> set xs \<Longrightarrow> P (f i) = P i) \<Longrightarrow> (\<And>i. i \<in> set xs \<Longrightarrow> P i \<Longrightarrow> f i = i) \<Longrightarrow>
   filter P (map f xs) = filter P xs"
  by (induction xs) simp_all

lemma number_inj:
  "distinct (map number tr) \<Longrightarrow> i \<in> set tr \<Longrightarrow> j \<in> set tr \<Longrightarrow> number i = number j \<Longrightarrow> i = j"
  by (meson distinct_map inj_onD)

text \<open>An issue that is well tagged carries the labels of at most one key.\<close>

lemma separate_no_shared_carrier:
  assumes "well_tagged i" "separate cfg t cfg' t'"
  shows "\<not> (carries (taskLabels cfg t) i \<and> carries (taskLabels cfg' t') i)"
proof
  assume c: "carries (taskLabels cfg t) i \<and> carries (taskLabels cfg' t') i"
  then have s: "''spec:'' @ specName t \<in> labels i" "''spec:'' @ specName t' \<in> labels i"
    and k: "''task:'' @ taskId t \<in> labels i" "''task:'' @ taskId t' \<in> labels i"
    by (auto simp: carries_def taskLabels_iff)
  from assms(1) s have "specName t = specName t'"
    by (simp add: well_tagged_def single_valued_label_def)
  moreover from assms(1) k have "taskId t = taskId t'"
    by (simp add: well_tagged_def single_valued_label_def)
  ultimately have x: "crossRepo cfg" "crossRepo cfg'" "repoIdentifier cfg \<noteq> repoIdentifier cfg'"
    using assms(2) by (auto simp: separate_def)
  then have "''repo:'' @ repoIdentifier cfg \<in> labels i" "''repo:'' @ repoIdentifier cfg' \<in> labels i"
    using c by (auto simp: carries_def taskLabels_iff)
  with assms(1) have "repoIdentifier cfg = repoIdentifier cfg'"
    by (simp add: well_tagged_def single_valued_label_def)
  with x show False by simp
qed

lemma separate_not_subset:
  assumes "separate cfg t cfg' t'"
  shows "\<not> taskLabels cfg t \<subseteq> taskLabels cfg' t'"
proof
  assume sub: "taskLabels cfg t \<subseteq> taskLabels cfg' t'"
  have "''spec:'' @ specName t \<in> taskLabels cfg' t'" "''task:'' @ taskId t \<in> taskLabels cfg' t'"
    using sub by (auto simp: taskLabels_iff)
  then have e: "specName t = specName t'" "taskId t = taskId t'"
    by (auto simp: taskLabels_iff)
  with assms have x: "crossRepo cfg" "crossRepo cfg'" "repoIdentifier cfg \<noteq> repoIdentifier cfg'"
    by (auto simp: separate_def)
  then have "''repo:'' @ repoIdentifier cfg \<in> taskLabels cfg' t'"
    using sub by (auto simp: taskLabels_iff)
  with x show False by (auto simp: taskLabels_iff)
qed





lemma syncTask_cases [case_names create keep update]:
  obtains
    "canonical cfg t tr = None"
    "fst (syncTask cfg t tr) =
       createIssue (desiredTitle t) (desiredBody cfg t) (taskLabels cfg t) (repoIdentifier cfg) tr"
    "snd (syncTask cfg t tr) = [IssueCreated (nextNumber tr)]"
  | c where "canonical cfg t tr = Some c" "matches cfg t c"
      "fst (syncTask cfg t tr) = tr" "filter is_write (snd (syncTask cfg t tr)) = []"
  | c where "canonical cfg t tr = Some c" "\<not> matches cfg t c"
      "fst (syncTask cfg t tr) =
         updateIssue (number c) (desiredTitle t) (desiredBody cfg t) (labels c) tr"
      "filter is_write (snd (syncTask cfg t tr)) = [IssueUpdated (number c)]"
proof (cases "canonical cfg t tr")
  case None
  then show ?thesis
    using that(1) by (simp add: syncTask_def canonical_def taskLabels_def Let_def)
next
  case (Some c)
  show ?thesis
  proof (cases "matches cfg t c")
    case True
    have "fst (syncTask cfg t tr) = tr" "filter is_write (snd (syncTask cfg t tr)) = []"
      using Some True by (auto simp: syncTask_def canonical_def matches_def Let_def)
    with Some True show ?thesis
      using that(2) [of c] by blast
  next
    case False
    have "fst (syncTask cfg t tr) =
            updateIssue (number c) (desiredTitle t) (desiredBody cfg t) (labels c) tr"
      "filter is_write (snd (syncTask cfg t tr)) = [IssueUpdated (number c)]"
      using Some False by (auto simp: syncTask_def canonical_def matches_def Let_def)
    with Some False show ?thesis
      using that(3) [of c] by blast
  qed
qed

lemma canonical_carrier:
  "canonical cfg t tr = Some c \<Longrightarrow> c \<in> set tr \<and> carries (taskLabels cfg t) c"
  using lowest_mem [of "searchIssues (taskLabels cfg t) tr" c]
  by (simp add: canonical_labels searchIssues_def)

text \<open>Updating by number touches one issue only when the numbers are distinct.\<close>

lemma updateIssue_other:
  assumes "distinct (map number tr)" "c \<in> set tr" "i \<in> set tr" "i \<noteq> c"
  shows "(if number i = number c then i\<lparr>issueTitle := ti, body := bo, labels := ls\<rparr> else i) = i"
  using assms number_inj by auto




text \<open>Synchronizing one task leaves the search result of every separate task as it was.\<close>

lemma syncTask_search_other:
  assumes ok: "tracker_ok tr" and sep: "separate cfg t cfg' t'"
  shows "searchIssues (taskLabels cfg t) (fst (syncTask cfg' t' tr)) =
         searchIssues (taskLabels cfg t) tr"
proof (cases cfg' t' tr rule: syncTask_cases)
  case create
  have "\<not> taskLabels cfg t \<subseteq> taskLabels cfg' t'"
    using sep by (rule separate_not_subset)
  then show ?thesis
    by (simp add: create(2) createIssue_def searchIssues_def carries_def)
next
  case (keep c)
  then show ?thesis by simp
next
  case (update c)
  let ?upd = "\<lambda>i. if number i = number c
                   then i\<lparr>issueTitle := desiredTitle t', body := desiredBody cfg' t', labels := labels c\<rparr>
                   else i"
  from update(1) have c: "c \<in> set tr" "carries (taskLabels cfg' t') c"
    using canonical_carrier by blast+
  have d: "distinct (map number tr)" using ok by (simp add: tracker_ok_def)
  have lab: "\<And>i. i \<in> set tr \<Longrightarrow> labels (?upd i) = labels i"
    using number_inj [OF d _ c(1)] by auto
  have "well_tagged c" using ok c(1) by (simp add: tracker_ok_def)
  then have nc: "\<not> carries (taskLabels cfg t) c"
    using separate_no_shared_carrier [OF _ sep, of c] c(2) by blast
  have same: "\<And>i. i \<in> set tr \<Longrightarrow> carries (taskLabels cfg t) i \<Longrightarrow> ?upd i = i"
  proof -
    fix i assume i: "i \<in> set tr" "carries (taskLabels cfg t) i"
    then have "i \<noteq> c" using nc by auto
    then have "number i \<noteq> number c" using number_inj [OF d i(1) c(1)] by auto
    then show "?upd i = i" by simp
  qed
  have "filter (carries (taskLabels cfg t)) (map ?upd tr) = filter (carries (taskLabels cfg t)) tr"
    by (rule filter_map_unaffected) (simp_all add: carries_def lab same [unfolded carries_def])
  then show ?thesis
    by (simp add: update(3) updateIssue_def searchIssues_def)
qed

lemma syncTask_canonical_other:
  "tracker_ok tr \<Longrightarrow> separate cfg t cfg' t' \<Longrightarrow>
   canonical cfg t (fst (syncTask cfg' t' tr)) = canonical cfg t tr"
  by (simp add: canonical_labels syncTask_search_other)

lemma syncTask_settled_other:
  "tracker_ok tr \<Longrightarrow> separate cfg t cfg' t' \<Longrightarrow> settled cfg t tr \<Longrightarrow>
   settled cfg t (fst (syncTask cfg' t' tr))"
  by (simp add: settled_def syncTask_canonical_other)











lemma state_change_fields:
  assumes "state_change f"
  shows "number (f i) = number i" "labels (f i) = labels i" "issueTitle (f i) = issueTitle i"
    "body (f i) = body i"
proof -
  obtain s where "f i = i\<lparr>state := s\<rparr>"
    using assms unfolding state_change_def by blast
  then show "number (f i) = number i" "labels (f i) = labels i" "issueTitle (f i) = issueTitle i"
    "body (f i) = body i"
    by simp_all
qed

lemma setIssueState_change:
  "setIssueState n st tr = map (\<lambda>i. if number i = n then i\<lparr>state := st\<rparr> else i) tr \<and>
   state_change (\<lambda>i. if number i = n then i\<lparr>state := st\<rparr> else i)"
proof -
  have "state_change (\<lambda>i. if number i = n then i\<lparr>state := st\<rparr> else i)"
    unfolding state_change_def
  proof
    fix i :: IssueRecord
    show "\<exists>s. (if number i = n then i\<lparr>state := st\<rparr> else i) = i\<lparr>state := s\<rparr>"
    proof (cases "number i = n")
      case True
      then have "(if number i = n then i\<lparr>state := st\<rparr> else i) = i\<lparr>state := st\<rparr>" by simp
      then show ?thesis by (rule exI)
    next
      case False
      then have "(if number i = n then i\<lparr>state := st\<rparr> else i) = i\<lparr>state := state i\<rparr>" by simp
      then show ?thesis by (rule exI)
    qed
  qed
  then show ?thesis by (simp add: setIssueState_def)
qed

lemma canonical_state_change:
  assumes "state_change f"
  shows "canonical cfg t (map f tr) = map_option f (canonical cfg t tr)"
proof -
  have "searchIssues (taskLabels cfg t) (map f tr) = map f (searchIssues (taskLabels cfg t) tr)"
    unfolding searchIssues_def
    by (rule filter_map_commute) (simp add: carries_def state_change_fields [OF assms])
  then show ?thesis
    by (simp add: canonical_labels lowest_map state_change_fields [OF assms])
qed



text \<open>The key, and the desired title and body, do not depend on the status.\<close>

lemma canonical_status [simp]: "canonical cfg (t\<lparr>status := s\<rparr>) tr = canonical cfg t tr"
  by (simp add: canonical_def syncKey_def)

lemma taskLabels_status [simp]: "taskLabels cfg (t\<lparr>status := s\<rparr>) = taskLabels cfg t"
  by (simp add: taskLabels_def syncKey_def)

lemma settled_status [simp]: "settled cfg (t\<lparr>status := s\<rparr>) tr = settled cfg t tr"
  by (simp add: settled_def desiredTitle_def desiredBody_def)

lemma separate_status [simp]:
  "separate cfg (t\<lparr>status := s\<rparr>) cfg' t' = separate cfg t cfg' t'"
  "separate cfg t cfg' (t'\<lparr>status := s\<rparr>) = separate cfg t cfg' t'"
  by (simp_all add: separate_def)

lemma desiredState_statusFor [simp]: "desiredState (statusFor st) = st"
  by (cases st) (simp_all add: desiredState_def statusFor_def)

lemma reconcileTask_cases [case_names none same pull push]:
  obtains
    "canonical cfg t tr = None" "reconcileTask cfg mode fm lu t tr = (t, tr, [])"
  | c where "canonical cfg t tr = Some c" "state c = desiredState (status t)"
      "reconcileTask cfg mode fm lu t tr = (t, tr, [])"
  | c where "canonical cfg t tr = Some c" "state c \<noteq> desiredState (status t)"
      "mode = TwoWay" "fm < lu (number c)"
      "reconcileTask cfg mode fm lu t tr =
         (t\<lparr>status := statusFor (state c)\<rparr>, tr, [CheckboxRewritten (taskId t) (statusFor (state c))])"
  | c where "canonical cfg t tr = Some c" "state c \<noteq> desiredState (status t)"
      "\<not> (mode = TwoWay \<and> fm < lu (number c))"
      "reconcileTask cfg mode fm lu t tr =
         (t, setIssueState (number c) (desiredState (status t)) tr,
          [IssueStateSet (number c) (desiredState (status t))])"
proof (cases "canonical cfg t tr")
  case None
  then show ?thesis using that(1) by (simp add: reconcileTask_def)
next
  case (Some c)
  show ?thesis
  proof (cases "state c = desiredState (status t)")
    case True
    with Some show ?thesis using that(2) [of c] by (simp add: reconcileTask_def)
  next
    case False
    show ?thesis
    proof (cases "mode = TwoWay \<and> fm < lu (number c)")
      case True
      with Some False show ?thesis using that(3) [of c] by (simp add: reconcileTask_def)
    next
      case nt: False
      with Some False show ?thesis using that(4) [of c] by (simp add: reconcileTask_def)
    qed
  qed
qed



lemma reconcileTask_key:
  "specName (rec_task (reconcileTask cfg mode fm lu t tr)) = specName t \<and>
   taskId (rec_task (reconcileTask cfg mode fm lu t tr)) = taskId t"
  by (cases rule: reconcileTask_cases [where cfg = cfg and t = t and tr = tr and mode = mode and fm = fm and lu = lu]) (simp_all add: rec_task_def)



text \<open>Reconciling one task leaves the canonical issue of every separate task as it was.\<close>

lemma reconcileTask_canonical_other:
  assumes ok: "tracker_ok tr" and sep: "separate cfg t cfg' t'"
  shows "canonical cfg t (rec_tracker (reconcileTask cfg' mode fm lu t' tr)) = canonical cfg t tr"
proof (cases rule: reconcileTask_cases [where cfg = cfg' and t = t' and tr = tr and mode = mode and fm = fm and lu = lu])
  case (push c')
  let ?upd = "\<lambda>i. if number i = number c' then i\<lparr>state := desiredState (status t')\<rparr> else i"
  have sc: "state_change ?upd"
    and eq: "setIssueState (number c') (desiredState (status t')) tr = map ?upd tr"
    using setIssueState_change [of "number c'" "desiredState (status t')" tr] by simp_all
  have c': "c' \<in> set tr" "carries (taskLabels cfg' t') c'"
    using push(1) canonical_carrier by blast+
  have d: "distinct (map number tr)" using ok by (simp add: tracker_ok_def)
  show ?thesis
  proof (cases "canonical cfg t tr")
    case None
    then show ?thesis
      by (simp add: push(4) rec_tracker_def eq canonical_state_change [OF sc])
  next
    case (Some c)
    then have c: "c \<in> set tr" "carries (taskLabels cfg t) c"
      using canonical_carrier by blast+
    have "well_tagged c" using ok c(1) by (simp add: tracker_ok_def)
    then have "c \<noteq> c'"
      using separate_no_shared_carrier [OF _ sep, of c] c(2) c'(2) by blast
    then have "number c \<noteq> number c'"
      using number_inj [OF d c(1) c'(1)] by blast
    then show ?thesis
      by (simp add: Some push(4) rec_tracker_def eq canonical_state_change [OF sc])
  qed
qed (simp_all add: rec_tracker_def)

lemma reconcileTask_agreed_other:
  "tracker_ok tr \<Longrightarrow> separate cfg t cfg' t' \<Longrightarrow> agreed cfg t tr \<Longrightarrow>
   agreed cfg t (rec_tracker (reconcileTask cfg' mode fm lu t' tr))"
  by (simp add: agreed_def reconcileTask_canonical_other)

lemma reconcile_Cons:
  "fst (reconcile cfg mode fm lu (t # ts) tr) =
     rec_task (reconcileTask cfg mode fm lu t tr) #
     fst (reconcile cfg mode fm lu ts (rec_tracker (reconcileTask cfg mode fm lu t tr)))"
  "rec_tracker (reconcile cfg mode fm lu (t # ts) tr) =
     rec_tracker (reconcile cfg mode fm lu ts (rec_tracker (reconcileTask cfg mode fm lu t tr)))"
  "rec_events (reconcile cfg mode fm lu (t # ts) tr) =
     rec_events (reconcileTask cfg mode fm lu t tr) @
     rec_events (reconcile cfg mode fm lu ts (rec_tracker (reconcileTask cfg mode fm lu t tr)))"
  by (simp_all add: reconcile.simps rec_task_def rec_tracker_def rec_events_def split: prod.splits)

lemma reconcile_Nil:
  "fst (reconcile cfg mode fm lu [] tr) = []"
  "rec_tracker (reconcile cfg mode fm lu [] tr) = tr"
  "rec_events (reconcile cfg mode fm lu [] tr) = []"
  by (simp_all add: reconcile.simps rec_tracker_def rec_events_def)




lemma reconcile_keys:
  "map (\<lambda>t. (specName t, taskId t)) (fst (reconcile cfg mode fm lu ts tr)) =
   map (\<lambda>t. (specName t, taskId t)) ts"
  by (induction ts arbitrary: tr) (simp_all add: reconcile_Cons reconcile_Nil reconcileTask_key)



lemma reconcile_distinct:
  "distinct_tasks ts \<Longrightarrow> distinct_tasks (fst (reconcile cfg mode fm lu ts tr))"
  by (simp add: distinct_tasks_def reconcile_keys)














text \<open>A file of ten checklist lines, the fifth without an id.\<close>

theorem parser_resilience_witness:
  "length (filter (well_formed_at ten_lines) [0..<length ten_lines]) = 9 \<and>
   length (filter (malformed_at ten_lines) [0..<length ten_lines]) = 1 \<and>
   length (fst (parseTasks no_marker ''kiro-workers'' ''tasks.md'' ten_lines)) = 9 \<and>
   length (snd (parseTasks no_marker ''kiro-workers'' ''tasks.md'' ten_lines)) = 1"
proof -
  have h: "length (filter (well_formed_at ten_lines) [0..<length ten_lines]) = 9 \<and>
           length (filter (malformed_at ten_lines) [0..<length ten_lines]) = 1"
    by code_simp
  show ?thesis
    using h parser_resilience [of no_marker "''kiro-workers''" "''tasks.md''" ten_lines]
    by blast
qed





end
